theory Spec2Isabelle
  imports Main "HOL-Library.Sublist" "HOL-Library.AList"
begin

section \<open>The Python operations the two solvers rely on\<close>

text \<open>
  A Python \<open>str\<close> is modelled as a \<open>string\<close>, a list of characters; an Isabelle
  character has 256 values, which covers the ASCII text both solvers are written for.
  Python's \<open>int\<close> is unbounded and is modelled as \<open>int\<close>. Every place where the
  source can raise is a branch returning \<open>Inl\<close> of the exception.
\<close>

datatype error = IndexError | ValueError | TypeError | KeyError

text \<open>Sequencing of two computations that may raise: the first exception wins.\<close>

definition bind_res :: "error + 'a \<Rightarrow> ('a \<Rightarrow> error + 'b) \<Rightarrow> error + 'b" where
  "bind_res m f = (case m of Inl e \<Rightarrow> Inl e | Inr x \<Rightarrow> f x)"

text \<open>\<open>xs[i]\<close>: a negative index counts from the end, an index out of range raises.\<close>

definition py_index :: "'a list \<Rightarrow> int \<Rightarrow> error + 'a" where
  "py_index xs i =
     (let n = int (length xs); j = (if i < 0 then i + n else i)
      in if 0 \<le> j \<and> j < n then Inr (xs ! nat j) else Inl IndexError)"

text \<open>
  \<open>xs[a:b]\<close> with step 1; \<open>None\<close> is an omitted bound. A negative bound counts from
  the end, and both bounds are clamped to the sequence: a slice never raises.
\<close>

definition slice_bound :: "int \<Rightarrow> int \<Rightarrow> int" where
  "slice_bound n k = (if k < 0 then max 0 (k + n) else min k n)"

definition py_slice :: "'a list \<Rightarrow> int option \<Rightarrow> int option \<Rightarrow> 'a list" where
  "py_slice xs a b =
     (let n = int (length xs);
          lo = (case a of None \<Rightarrow> 0 | Some k \<Rightarrow> slice_bound n k);
          hi = (case b of None \<Rightarrow> n | Some k \<Rightarrow> slice_bound n k)
      in take (nat (hi - lo)) (drop (nat lo) xs))"

text \<open>\<open>w in s\<close> on two strings: \<open>w\<close> occurs in \<open>s\<close> as a contiguous substring.\<close>

fun py_in_str :: "string \<Rightarrow> string \<Rightarrow> bool" where
  "py_in_str w [] = (w = [])"
| "py_in_str w (c # cs) = (take (length w) (c # cs) = w \<or> py_in_str w cs)"

text \<open>
  The characters \<open>str.strip()\<close> removes and \<open>int()\<close> skips: those below 256 for
  which \<open>str.isspace\<close> holds.
\<close>

definition is_space :: "char \<Rightarrow> bool" where
  "is_space c = (c \<in> set [CHR 0x09, CHR 0x0A, CHR 0x0B, CHR 0x0C, CHR 0x0D,
                           CHR 0x1C, CHR 0x1D, CHR 0x1E, CHR 0x1F, CHR 0x20,
                           CHR 0x85, CHR 0xA0])"

definition strip :: "string \<Rightarrow> string" where
  "strip s = rev (dropWhile is_space (rev (dropWhile is_space s)))"


text \<open>Decimal digits, \<open>str(n)\<close> and \<open>int(s)\<close>.\<close>

definition is_digit :: "char \<Rightarrow> bool" where
  "is_digit c = (c \<in> set ''0123456789'')"

definition digit_val :: "char \<Rightarrow> int" where
  "digit_val c = int (of_char c) - 48"

definition digit_char :: "nat \<Rightarrow> char" where
  "digit_char d = ''0123456789'' ! d"

fun str_nat :: "nat \<Rightarrow> string" where
  "str_nat n = (if n < 10 then [digit_char n] else str_nat (n div 10) @ [digit_char (n mod 10)])"

declare str_nat.simps [simp del]

definition py_str :: "int \<Rightarrow> string" where
  "py_str k = (if k < 0 then CHR ''-'' # str_nat (nat (- k)) else str_nat (nat k))"

text \<open>
  The digits of an integer literal: at least one digit, and an underscore only between
  two digits (\<open>1_000\<close>). \<open>acc\<close> is the value read so far, \<open>after_digit\<close> says
  whether the previous character was a digit.
\<close>

fun digits_value :: "int \<Rightarrow> bool \<Rightarrow> string \<Rightarrow> int option" where
  "digits_value acc after_digit [] = (if after_digit then Some acc else None)"
| "digits_value acc after_digit (c # cs) =
     (if is_digit c then digits_value (10 * acc + digit_val c) True cs
      else if c = CHR ''_'' \<and> after_digit \<and> cs \<noteq> [] \<and> is_digit (hd cs)
           then digits_value acc False cs
      else None)"

text \<open>
  \<open>int(s)\<close> on a string: surrounding whitespace is skipped, one sign is allowed, anything
  else raises \<open>ValueError\<close>. (The interpreter's optional limit on the number of digits
  of a literal is not modelled.)
\<close>

definition py_int :: "string \<Rightarrow> error + int" where
  "py_int s =
     (let t = strip s;
          (sign, body) = (case t of
                            [] \<Rightarrow> (1, [])
                          | c # cs \<Rightarrow> if c = CHR ''-'' then (- 1, cs)
                                      else if c = CHR ''+'' then (1, cs) else (1, t))
      in case digits_value 0 False body of
           None \<Rightarrow> Inl ValueError
         | Some v \<Rightarrow> Inr (sign * v))"

section \<open>Day 1: the calibration decoder (\<open>d1.py\<close>)\<close>

definition word_numbers :: "string list" where
  "word_numbers = [''one'', ''two'', ''three'', ''four'', ''five'', ''six'', ''seven'',
                   ''eight'', ''nine'']"

text \<open>\<open>numbers = [str(number) for number in range(10)]\<close>\<close>

definition numbers :: "string list" where
  "numbers = map (\<lambda>number. py_str (int number)) [0..<10]"

text \<open>
  The inner loop of \<open>decode_line\<close> over \<open>enumerate(word_numbers)\<close> at position \<open>i\<close>,
  on the pair \<open>(first_num, last_num)\<close>. The window on the right is the last
  \<open>len(word_number)\<close> characters when \<open>i = 0\<close>, and the slice
  \<open>line[-(i+len(word_number)+1):-i]\<close> otherwise. The loop leaves as soon as both
  values are set.
\<close>

fun word_loop ::
  "string \<Rightarrow> nat \<Rightarrow> (nat \<times> string) list \<Rightarrow> int option \<times> int option \<Rightarrow> int option \<times> int option"
where
  "word_loop line i [] (first_num, last_num) = (first_num, last_num)"
| "word_loop line i ((number, word_number) # rest) (first_num, last_num) =
     (let left_word = py_slice line (Some (int i)) (Some (int i + int (length word_number)));
          right_word =
            (if i = 0 then py_slice line (Some (- int (length word_number))) None
             else py_slice line (Some (- (int i + int (length word_number) + 1)))
                                (Some (- int i)));
          first_num' = (if first_num = None \<and> py_in_str word_number left_word
                        then Some (int number + 1) else first_num);
          last_num' = (if last_num = None \<and> py_in_str word_number right_word
                       then Some (int number + 1) else last_num)
      in if first_num' \<noteq> None \<and> last_num' \<noteq> None then (first_num', last_num')
         else word_loop line i rest (first_num', last_num'))"

text \<open>
  One pass of the outer loop body at position \<open>i\<close>: the two cursors, the two digit
  tests, then the word loop when word correction is on.
\<close>

definition scan_step ::
  "string \<Rightarrow> bool \<Rightarrow> nat \<Rightarrow> int option \<times> int option \<Rightarrow> error + (int option \<times> int option)"
where
  "scan_step line word_correction i st =
     (case st of (first_num, last_num) \<Rightarrow>
      bind_res (py_index line (int i)) (\<lambda>left_cursor.
      bind_res (py_index line (- (int i + 1))) (\<lambda>right_cursor.
      bind_res (if first_num = None \<and> [left_cursor] \<in> set numbers
                then bind_res (py_int [left_cursor]) (\<lambda>v. Inr (Some v))
                else Inr first_num) (\<lambda>first_num.
      bind_res (if last_num = None \<and> [right_cursor] \<in> set numbers
                then bind_res (py_int [right_cursor]) (\<lambda>v. Inr (Some v))
                else Inr last_num) (\<lambda>last_num.
      Inr (if word_correction
           then word_loop line i (enumerate 0 word_numbers) (first_num, last_num)
           else (first_num, last_num)))))))"

text \<open>
  The outer loop \<open>for i in range(len(line))\<close>, given the positions still to visit; it
  leaves as soon as both values are set.
\<close>

fun scan_loop ::
  "string \<Rightarrow> bool \<Rightarrow> nat list \<Rightarrow> int option \<times> int option \<Rightarrow> error + (int option \<times> int option)"
where
  "scan_loop line word_correction [] st = Inr st"
| "scan_loop line word_correction (i # rest) st =
     (case scan_step line word_correction i st of
        Inl e \<Rightarrow> Inl e
      | Inr (first_num, last_num) \<Rightarrow>
          if first_num \<noteq> None \<and> last_num \<noteq> None then Inr (first_num, last_num)
          else scan_loop line word_correction rest (first_num, last_num))"

text \<open>The state \<open>(first_num, last_num)\<close> with which the loop of \<open>decode_line\<close> ends.\<close>

definition decode_scan :: "string \<Rightarrow> bool \<Rightarrow> error + (int option \<times> int option)" where
  "decode_scan line word_correction =
     scan_loop line word_correction [0..<length line] (None, None)"

text \<open>\<open>int(f"{a}{b}")\<close>\<close>

definition concat_num :: "int \<Rightarrow> int \<Rightarrow> error + int" where
  "concat_num a b = py_int (py_str a @ py_str b)"

text \<open>The four-way result of \<open>decode_line\<close> (lines 82 to 89).\<close>

fun compose_result :: "int option \<times> int option \<Rightarrow> error + int option" where
  "compose_result (None, None) = Inr None"
| "compose_result (None, Some last_num) =
     bind_res (concat_num last_num last_num) (\<lambda>v. Inr (Some v))"
| "compose_result (Some first_num, None) =
     bind_res (concat_num first_num first_num) (\<lambda>v. Inr (Some v))"
| "compose_result (Some first_num, Some last_num) =
     bind_res (concat_num first_num last_num) (\<lambda>v. Inr (Some v))"

definition decode_line :: "string \<Rightarrow> bool \<Rightarrow> error + int option" where
  "decode_line line word_correction =
     bind_res (decode_scan line word_correction) compose_result"

text \<open>
  \<open>sum_lines\<close>: the file is the list of its lines as iteration yields them. Adding
  \<open>None\<close> to the running total is a \<open>TypeError\<close> in Python. The \<open>print\<close> of each
  line does not touch the total and is left out.
\<close>

fun sum_loop :: "bool \<Rightarrow> string list \<Rightarrow> int \<Rightarrow> error + int" where
  "sum_loop word_correction [] total' = Inr total'"
| "sum_loop word_correction (line # rest) total' =
     (case decode_line (strip line) word_correction of
        Inl e \<Rightarrow> Inl e
      | Inr None \<Rightarrow> Inl TypeError
      | Inr (Some decoded_line) \<Rightarrow> sum_loop word_correction rest (total' + decoded_line))"

definition sum_lines :: "string list \<Rightarrow> bool \<Rightarrow> error + int" where
  "sum_lines file_lines word_correction = sum_loop word_correction file_lines 0"

section \<open>Day 2: the dice games (\<open>d2.py\<close>)\<close>

record DiceGroup =
  num_blue :: int
  num_green :: int
  num_red :: int

text \<open>
  The comparison methods of \<open>DiceGroup\<close>. Each raises \<open>NotImplementedError\<close> on an
  operand that is not a \<open>DiceGroup\<close>; here both operands have that type.
\<close>

definition DiceGroup_eq :: "DiceGroup \<Rightarrow> DiceGroup \<Rightarrow> bool" where
  "DiceGroup_eq self other =
     (num_blue self = num_blue other \<and> num_green self = num_green other \<and>
      num_red self = num_red other)"

definition DiceGroup_gt :: "DiceGroup \<Rightarrow> DiceGroup \<Rightarrow> bool" where
  "DiceGroup_gt self other =
     (num_blue self > num_blue other \<or> num_green self > num_green other \<or>
      num_red self > num_red other)"

definition DiceGroup_lt :: "DiceGroup \<Rightarrow> DiceGroup \<Rightarrow> bool" where
  "DiceGroup_lt self other =
     (num_blue self < num_blue other \<or> num_green self < num_green other \<or>
      num_red self < num_red other)"

definition DiceGroup_ge :: "DiceGroup \<Rightarrow> DiceGroup \<Rightarrow> bool" where
  "DiceGroup_ge self other = (DiceGroup_gt self other \<or> DiceGroup_eq self other)"

definition DiceGroup_le :: "DiceGroup \<Rightarrow> DiceGroup \<Rightarrow> bool" where
  "DiceGroup_le self other = (DiceGroup_lt self other \<or> DiceGroup_eq self other)"














fun validate_game :: "DiceGroup list \<Rightarrow> DiceGroup \<Rightarrow> bool" where
  "validate_game [] bag = True"
| "validate_game (group' # rest) bag =
     (if DiceGroup_gt group' bag then False else validate_game rest bag)"

section \<open>Auxiliary notions for the proofs\<close>

text \<open>
  The two searches of \<open>decode_line\<close> do not influence each other: each keeps the first
  value it meets. The functions below say what one position contributes to each search;
  the lemmas of the next section show that the loops compute exactly this.
\<close>

definition orelse :: "'a option \<Rightarrow> 'a option \<Rightarrow> 'a option" where
  "orelse a b = (case a of None \<Rightarrow> b | Some x \<Rightarrow> Some x)"

fun first_some :: "'a option list \<Rightarrow> 'a option" where
  "first_some [] = None"
| "first_some (x # xs) = orelse x (first_some xs)"

definition left_window :: "string \<Rightarrow> nat \<Rightarrow> string \<Rightarrow> string" where
  "left_window line i w = take (length w) (drop i line)"

definition right_window :: "string \<Rightarrow> nat \<Rightarrow> string \<Rightarrow> string" where
  "right_window line i w =
     (if i = 0 then drop (length line - length w) line
      else take ((length line - i) - (length line - (i + length w + 1)))
             (drop (length line - (i + length w + 1)) line))"

definition word_at ::
  "(string \<Rightarrow> nat \<Rightarrow> string \<Rightarrow> string) \<Rightarrow> string \<Rightarrow> nat \<Rightarrow> (nat \<times> string) list \<Rightarrow> int option"
where
  "word_at window line i ws =
     map_option (\<lambda>(number, w). int number + 1)
       (find (\<lambda>(number, w). py_in_str w (window line i w)) ws)"

definition digit_at :: "string \<Rightarrow> nat \<Rightarrow> int option" where
  "digit_at line j = (if is_digit (line ! j) then Some (digit_val (line ! j)) else None)"

definition left_at :: "string \<Rightarrow> bool \<Rightarrow> nat \<Rightarrow> int option" where
  "left_at line wc i =
     orelse (digit_at line i)
       (if wc then word_at left_window line i (enumerate 0 word_numbers) else None)"

definition right_at :: "string \<Rightarrow> bool \<Rightarrow> nat \<Rightarrow> int option" where
  "right_at line wc i =
     orelse (digit_at line (length line - 1 - i))
       (if wc then word_at right_window line i (enumerate 0 word_numbers) else None)"

text \<open>A line has a value when it holds a digit or, with word correction, a digit word.\<close>

definition has_value :: "string \<Rightarrow> bool \<Rightarrow> bool" where
  "has_value line wc \<longleftrightarrow>
     (\<exists>c\<in>set line. is_digit c) \<or> (wc \<and> (\<exists>w\<in>set word_numbers. py_in_str w line))"

text \<open>
  The reading of \<open>sum_lines\<close> under which a line without a value adds 0 to the
  total, for comparison with \<open>sum_lines\<close>.
\<close>

definition line_value_or_zero :: "string \<Rightarrow> bool \<Rightarrow> int" where
  "line_value_or_zero line wc =
     (case decode_line (strip line) wc of Inr (Some v) \<Rightarrow> v | _ \<Rightarrow> 0)"

definition sum_lines_none_as_zero :: "string list \<Rightarrow> bool \<Rightarrow> error + int" where
  "sum_lines_none_as_zero file_lines wc =
     Inr (sum_list (map (\<lambda>line. line_value_or_zero line wc) file_lines))"


text \<open>
  A description of what \<open>parse_game_string\<close> yields, draw by draw and colour by colour,
  for comparison with the loops of the code. A token names the first of blue, green, red
  that it contains; its number is the text before its first space, read by \<open>int()\<close>. The
  count of a colour in a draw is the number of the last token naming it, and \<open>absent\<close>
  when no token names it. A draw can be read when every token naming a colour has a
  number.
\<close>

definition token_colour :: "string \<Rightarrow> string option" where
  "token_colour tok = find (\<lambda>colour. py_in_str colour tok) [''blue'', ''green'', ''red'']"

definition token_number :: "string \<Rightarrow> error + int" where
  "token_number tok = py_int (takeWhile (\<lambda>c. c \<noteq> CHR '' '') (strip tok))"

definition colour_count :: "int \<Rightarrow> string \<Rightarrow> string list \<Rightarrow> int" where
  "colour_count absent colour toks =
     (case rev (filter (\<lambda>tok. token_colour tok = Some colour) toks) of
        [] \<Rightarrow> absent
      | tok # _ \<Rightarrow> (case token_number tok of Inr v \<Rightarrow> v | Inl _ \<Rightarrow> 0))"







section \<open>Facts about the Python operations\<close>

lemma bind_res_Inr [simp]: "bind_res (Inr x) f = f x"
  by (simp add: bind_res_def)

lemma bind_res_Inl [simp]: "bind_res (Inl e) f = Inl e"
  by (simp add: bind_res_def)

lemma py_index_nat: "i < length xs \<Longrightarrow> py_index xs (int i) = Inr (xs ! i)"
  by (simp add: py_index_def)

lemma py_index_from_end:
  "i < length xs \<Longrightarrow> py_index xs (- (int i + 1)) = Inr (xs ! (length xs - 1 - i))"
proof -
  assume a: "i < length xs"
  then have "nat (- (int i + 1) + int (length xs)) = length xs - 1 - i" by linarith
  with a show ?thesis by (simp add: py_index_def)
qed

lemma py_in_str_sublist: "py_in_str w s = sublist w s"
proof (induction s)
  case Nil
  show ?case by simp
next
  case (Cons c cs)
  have "prefix w (c # cs) \<longleftrightarrow> take (length w) (c # cs) = w"
    by (metis append_eq_conv_conj prefix_def take_is_prefix)
  with Cons show ?case by (simp add: sublist_Cons_right)
qed

lemma is_digit_cases:
  "is_digit c \<longleftrightarrow> c = CHR ''0'' \<or> c = CHR ''1'' \<or> c = CHR ''2'' \<or> c = CHR ''3'' \<or> c = CHR ''4'' \<or>
     c = CHR ''5'' \<or> c = CHR ''6'' \<or> c = CHR ''7'' \<or> c = CHR ''8'' \<or> c = CHR ''9''"
  by (auto simp: is_digit_def)

lemma numbers_eq: "numbers = map (\<lambda>c. [c]) ''0123456789''"
  by (simp add: numbers_def py_str_def str_nat.simps digit_char_def upt_rec)

lemma in_numbers_iff: "[c] \<in> set numbers \<longleftrightarrow> is_digit c"
  by (auto simp: numbers_eq is_digit_def)

lemma digit_val_range: "is_digit c \<Longrightarrow> 0 \<le> digit_val c \<and> digit_val c \<le> 9"
  by (auto simp: is_digit_cases digit_val_def)

lemma digit_val_pos: "is_digit c \<Longrightarrow> c \<noteq> CHR ''0'' \<Longrightarrow> 1 \<le> digit_val c"
  by (auto simp: is_digit_cases digit_val_def)

lemma is_digit_not_space: "is_digit c \<Longrightarrow> \<not> is_space c"
  by (auto simp: is_digit_cases is_space_def)

lemma is_digit_not_sign: "is_digit c \<Longrightarrow> c \<noteq> CHR ''-'' \<and> c \<noteq> CHR ''+''"
  by (auto simp: is_digit_cases)

lemma strip_digits: "is_digit c \<Longrightarrow> is_digit d \<Longrightarrow> strip [c] = [c] \<and> strip [c, d] = [c, d]"
  by (simp add: strip_def is_digit_not_space)

lemma py_int_digit: "is_digit c \<Longrightarrow> py_int [c] = Inr (digit_val c)"
  using is_digit_not_sign[of c] strip_digits[of c c]
  by (simp add: py_int_def)

lemma py_int_two_digits:
  "is_digit c \<Longrightarrow> is_digit d \<Longrightarrow> py_int [c, d] = Inr (10 * digit_val c + digit_val d)"
  using is_digit_not_sign[of c] strip_digits[of c d]
  by (simp add: py_int_def)

lemma py_str_digit:
  "0 \<le> a \<Longrightarrow> a \<le> 9 \<Longrightarrow> py_str a = [digit_char (nat a)] \<and> is_digit (digit_char (nat a))
     \<and> digit_val (digit_char (nat a)) = a"
proof -
  assume "0 \<le> a" "a \<le> 9"
  then have "a = 0 \<or> a = 1 \<or> a = 2 \<or> a = 3 \<or> a = 4 \<or> a = 5 \<or> a = 6 \<or> a = 7 \<or> a = 8 \<or> a = 9"
    by arith
  then show ?thesis
    by (elim disjE) (simp_all add: py_str_def str_nat.simps digit_char_def is_digit_def digit_val_def)
qed

lemma concat_num_digits:
  "0 \<le> a \<Longrightarrow> a \<le> 9 \<Longrightarrow> 0 \<le> b \<Longrightarrow> b \<le> 9 \<Longrightarrow> concat_num a b = Inr (10 * a + b)"
  using py_str_digit[of a] py_str_digit[of b]
  by (simp add: concat_num_def py_int_two_digits)

section \<open>Day 1: what the loops of the decoder compute\<close>

lemma py_slice_left:
  "py_slice line (Some (int i)) (Some (int i + int k)) = take k (drop i line)"
proof (cases "i \<le> length line")
  case True
  then have "nat (min (int i + int k) (int (length line)) - int i) = min k (length line - i)"
    by linarith
  moreover have "take (min k (length line - i)) (drop i line) = take k (drop i line)"
    by (cases "k \<le> length line - i") (simp_all add: min_def)
  ultimately show ?thesis
    using True by (simp add: py_slice_def slice_bound_def)
next
  case False
  then show ?thesis
    by (simp add: py_slice_def slice_bound_def)
qed

lemma py_slice_right_0:
  "0 < k \<Longrightarrow> py_slice line (Some (- int k)) None = drop (length line - k) line"
proof -
  assume "0 < k"
  moreover have "nat (max 0 (- int k + int (length line))) = length line - k"
    by linarith
  ultimately show ?thesis
    by (simp add: py_slice_def slice_bound_def)
qed

lemma py_slice_right:
  "0 < i \<Longrightarrow>
   py_slice line (Some (- (int i + int k + 1))) (Some (- int i)) =
     take ((length line - i) - (length line - (i + k + 1))) (drop (length line - (i + k + 1)) line)"
proof -
  assume i: "0 < i"
  let ?n = "int (length line)"
  have lo: "nat (max 0 (- (int i + int k + 1) + ?n)) = length line - (i + k + 1)"
    by linarith
  have hi: "nat (max 0 (- int i + ?n) - max 0 (- (int i + int k + 1) + ?n))
              = (length line - i) - (length line - (i + k + 1))"
    by linarith
  have neg: "- (int i + int k + 1) < 0" "- int i < 0"
    using i by linarith+
  show ?thesis
    unfolding py_slice_def slice_bound_def Let_def option.case
    using neg lo hi by simp
qed

lemma orelse_simps [simp]:
  "orelse None b = b" "orelse (Some x) b = Some x" "orelse a None = a"
  by (simp_all add: orelse_def split: option.splits)

lemma orelse_assoc: "orelse (orelse a b) c = orelse a (orelse b c)"
  by (simp add: orelse_def split: option.splits)

lemma orelse_eq_None: "orelse a b = None \<longleftrightarrow> a = None \<and> b = None"
  by (simp add: orelse_def split: option.splits)

lemma first_some_eq_None: "first_some xs = None \<longleftrightarrow> (\<forall>x\<in>set xs. x = None)"
  by (induction xs) (auto simp: orelse_eq_None)

lemma word_at_Nil [simp]: "word_at window line i [] = None"
  by (simp add: word_at_def)

lemma word_at_Cons:
  "word_at window line i ((number, w) # rest) =
     (if py_in_str w (window line i w) then Some (int number + 1)
      else word_at window line i rest)"
  by (simp add: word_at_def)

lemma word_loop_eq:
  "\<forall>p\<in>set ws. snd p \<noteq> [] \<Longrightarrow>
   word_loop line i ws (f, l) =
     (orelse f (word_at left_window line i ws), orelse l (word_at right_window line i ws))"
proof (induction ws arbitrary: f l)
  case Nil
  show ?case by simp
next
  case (Cons p ws)
  obtain number w where p: "p = (number, w)" by (cases p)
  from Cons.prems p have w: "0 < length w" by simp
  have lw: "py_slice line (Some (int i)) (Some (int i + int (length w))) = left_window line i w"
    by (simp add: py_slice_left left_window_def)
  have rw: "(if i = 0 then py_slice line (Some (- int (length w))) None
             else py_slice line (Some (- (int i + int (length w) + 1))) (Some (- int i)))
            = right_window line i w"
  proof (cases "i = 0")
    case True
    then show ?thesis
      using py_slice_right_0[OF w, of line] by (simp add: right_window_def)
  next
    case False
    then have "0 < i" by simp
    from py_slice_right[OF this, of line "length w"] False show ?thesis
      by (simp only: right_window_def if_False)
  qed
  have IH: "\<And>f l. word_loop line i ws (f, l) =
     (orelse f (word_at left_window line i ws), orelse l (word_at right_window line i ws))"
    using Cons by simp
  show ?case
    unfolding p word_loop.simps lw rw Let_def IH word_at_Cons
    by (cases f; cases l) simp_all
qed

lemma word_numbers_nonempty: "\<forall>p\<in>set (enumerate 0 word_numbers). snd p \<noteq> []"
  by (simp add: word_numbers_def)

lemma digit_step:
  "(if f = None \<and> [c] \<in> set numbers then bind_res (py_int [c]) (\<lambda>v. Inr (Some v)) else Inr f)
     = Inr (orelse f (if is_digit c then Some (digit_val c) else None))"
  by (cases f) (simp_all add: in_numbers_iff py_int_digit)

lemma scan_step_eq:
  assumes "i < length line"
  shows "scan_step line wc i (f, l) =
           Inr (orelse f (left_at line wc i), orelse l (right_at line wc i))"
proof -
  have "scan_step line wc i (f, l) =
          Inr (if wc then word_loop line i (enumerate 0 word_numbers)
                            (orelse f (digit_at line i),
                             orelse l (digit_at line (length line - 1 - i)))
               else (orelse f (digit_at line i), orelse l (digit_at line (length line - 1 - i))))"
    unfolding scan_step_def prod.case py_index_nat[OF assms] py_index_from_end[OF assms]
      bind_res_Inr digit_step digit_at_def ..
  then show ?thesis
    by (simp add: word_loop_eq[OF word_numbers_nonempty] left_at_def right_at_def orelse_assoc)
qed

lemma scan_loop_eq:
  "\<forall>i\<in>set is. i < length line \<Longrightarrow>
   scan_loop line wc is (f, l) =
     Inr (orelse f (first_some (map (left_at line wc) is)),
          orelse l (first_some (map (right_at line wc) is)))"
proof (induction "is" arbitrary: f l)
  case Nil
  show ?case by simp
next
  case (Cons i rest)
  then have i: "i < length line" by simp
  have IH: "\<And>f l. scan_loop line wc rest (f, l) =
     Inr (orelse f (first_some (map (left_at line wc) rest)),
          orelse l (first_some (map (right_at line wc) rest)))"
    using Cons by simp
  define f' where "f' = orelse f (left_at line wc i)"
  define l' where "l' = orelse l (right_at line wc i)"
  have step: "scan_loop line wc (i # rest) (f, l) =
          (if f' \<noteq> None \<and> l' \<noteq> None then Inr (f', l') else scan_loop line wc rest (f', l'))"
    by (simp add: scan_step_eq[OF i] f'_def l'_def)
  have rhs: "orelse f (first_some (map (left_at line wc) (i # rest))) =
               orelse f' (first_some (map (left_at line wc) rest))"
            "orelse l (first_some (map (right_at line wc) (i # rest))) =
               orelse l' (first_some (map (right_at line wc) rest))"
    by (simp_all add: f'_def l'_def orelse_assoc)
  show ?case
  proof (cases "f' \<noteq> None \<and> l' \<noteq> None")
    case True
    then have "orelse f' (first_some (map (left_at line wc) rest)) = f'"
              "orelse l' (first_some (map (right_at line wc) rest)) = l'"
      by auto
    with True show ?thesis
      unfolding step rhs by simp
  next
    case False
    then show ?thesis
      unfolding step rhs IH by auto
  qed
qed

lemma decode_scan_eq:
  "decode_scan line wc =
     Inr (first_some (map (left_at line wc) [0..<length line]),
          first_some (map (right_at line wc) [0..<length line]))"
  by (simp add: decode_scan_def scan_loop_eq)

section \<open>Day 2: validation and the comparison of dice groups\<close>

lemma DiceGroup_gt_iff:
  "DiceGroup_gt d bag \<longleftrightarrow>
     \<not> (num_red d \<le> num_red bag \<and> num_green d \<le> num_green bag \<and> num_blue d \<le> num_blue bag)"
  by (auto simp: DiceGroup_gt_def)

lemma validate_game_no_gt: "validate_game draws bag \<longleftrightarrow> (\<forall>d\<in>set draws. \<not> DiceGroup_gt d bag)"
  by (induction draws) simp_all

text \<open>
  Claim C2. For every finite sequence of draws and every bag, \<open>validate_game\<close> is true
  exactly when every colour count of every draw is at most the bag's count of that colour;
  said otherwise, exactly when no draw exceeds the bag in the sense of \<open>__gt__\<close>.
\<close>

theorem validate_game_iff_all_le:
  "(validate_game draws bag \<longleftrightarrow>
      (\<forall>d\<in>set draws. num_red d \<le> num_red bag \<and> num_green d \<le> num_green bag \<and>
                       num_blue d \<le> num_blue bag)) \<and>
   (validate_game draws bag \<longleftrightarrow> \<not> (\<exists>d\<in>set draws. DiceGroup_gt d bag))"
  by (auto simp: validate_game_no_gt DiceGroup_gt_iff)

theorem validate_game_iff_all_le_witness:
  "validate_game
     [\<lparr>num_blue = 3, num_green = 0, num_red = 4\<rparr>, \<lparr>num_blue = 6, num_green = 2, num_red = 1\<rparr>,
      \<lparr>num_blue = 0, num_green = 2, num_red = 0\<rparr>]
     \<lparr>num_blue = 14, num_green = 13, num_red = 12\<rparr> \<and>
   \<not> validate_game
     [\<lparr>num_blue = 6, num_green = 8, num_red = 20\<rparr>, \<lparr>num_blue = 5, num_green = 13, num_red = 4\<rparr>,
      \<lparr>num_blue = 0, num_green = 5, num_red = 1\<rparr>]
     \<lparr>num_blue = 14, num_green = 13, num_red = 12\<rparr>"
  using validate_game_iff_all_le
          [of "[\<lparr>num_blue = 3, num_green = 0, num_red = 4\<rparr>,
                \<lparr>num_blue = 6, num_green = 2, num_red = 1\<rparr>,
                \<lparr>num_blue = 0, num_green = 2, num_red = 0\<rparr>]"
              "\<lparr>num_blue = 14, num_green = 13, num_red = 12\<rparr>"]
        validate_game_iff_all_le
          [of "[\<lparr>num_blue = 6, num_green = 8, num_red = 20\<rparr>,
                \<lparr>num_blue = 5, num_green = 13, num_red = 4\<rparr>,
                \<lparr>num_blue = 0, num_green = 5, num_red = 1\<rparr>]"
              "\<lparr>num_blue = 14, num_green = 13, num_red = 12\<rparr>"]
  by (simp del: validate_game.simps)

text \<open>
  Claim C8. The relation "exceeds" of \<open>__gt__\<close> (and its mirror \<open>__lt__\<close>) is not
  antisymmetric: there are two different dice groups each of which exceeds the other, and
  each of which is also below the other, because each is greater on a different colour.
\<close>

theorem exceeds_not_antisymmetric:
  "\<exists>A B. DiceGroup_gt A B \<and> DiceGroup_gt B A \<and> DiceGroup_lt A B \<and> DiceGroup_lt B A \<and>
         A \<noteq> B \<and> \<not> DiceGroup_eq A B"
proof (intro exI conjI)
  let ?A = "\<lparr>num_blue = 1, num_green = 0, num_red = 0\<rparr>"
  let ?B = "\<lparr>num_blue = 0, num_green = 1, num_red = 0\<rparr>"
  show "DiceGroup_gt ?A ?B" by (simp add: DiceGroup_gt_def)
  show "DiceGroup_gt ?B ?A" by (simp add: DiceGroup_gt_def)
  show "DiceGroup_lt ?A ?B" by (simp add: DiceGroup_lt_def)
  show "DiceGroup_lt ?B ?A" by (simp add: DiceGroup_lt_def)
  show "?A \<noteq> ?B" by simp
  show "\<not> DiceGroup_eq ?A ?B" by (simp add: DiceGroup_eq_def)
qed

section \<open>Which lines let each search of the decoder find a value\<close>

lemma word_at_eq_None:
  "word_at window line i (enumerate k ws) = None \<longleftrightarrow>
     (\<forall>w\<in>set ws. \<not> sublist w (window line i w))"
proof -
  have "set ws = snd ` set (enumerate k ws)"
    by (metis map_snd_enumerate set_map)
  then show ?thesis
    by (auto simp: word_at_def find_None_iff py_in_str_sublist)
qed

lemma word_at_range:
  assumes "word_at window line i (enumerate 0 word_numbers) = Some v"
  shows "1 \<le> v \<and> v \<le> 9"
proof -
  from assms obtain number w where
    "find (\<lambda>(number, w). py_in_str w (window line i w)) (enumerate 0 word_numbers) = Some (number, w)"
    and v: "v = int number + 1"
    by (auto simp: word_at_def)
  then have "(number, w) \<in> set (enumerate 0 word_numbers)"
    by (auto simp: find_Some_iff in_set_conv_nth)
  then have "number < length word_numbers"
    by (simp add: in_set_enumerate_eq)
  then have "number < 9"
    by (simp add: word_numbers_def)
  with v show ?thesis by simp
qed

lemma sublist_left_window:
  assumes "w \<noteq> []"
  shows "(\<forall>i<length line. \<not> sublist w (left_window line i w)) \<longleftrightarrow> \<not> sublist w line"
proof
  assume none: "\<forall>i<length line. \<not> sublist w (left_window line i w)"
  show "\<not> sublist w line"
  proof
    assume "sublist w line"
    then obtain ps ss where line: "line = ps @ w @ ss"
      by (auto simp: sublist_def)
    have "length ps < length line"
      using assms by (simp add: line)
    moreover have "left_window line (length ps) w = w"
      by (simp add: left_window_def line)
    ultimately show False
      using none by force
  qed
next
  assume no: "\<not> sublist w line"
  have "sublist (left_window line i w) line" for i
    unfolding left_window_def
    by (meson sublist_drop sublist_order.order_trans sublist_take)
  with no show "\<forall>i<length line. \<not> sublist w (left_window line i w)"
    using sublist_order.order_trans by blast
qed

lemma right_window_sublist: "sublist (right_window line i w) line"
proof (cases "i = 0")
  case True
  then show ?thesis by (simp add: right_window_def)
next
  case False
  then show ?thesis
    unfolding right_window_def
    by (simp only: if_False) (meson sublist_drop sublist_order.order_trans sublist_take)
qed

lemma sublist_right_window:
  assumes "w \<noteq> []"
  shows "(\<forall>i<length line. \<not> sublist w (right_window line i w)) \<longleftrightarrow> \<not> sublist w line"
proof
  assume none: "\<forall>i<length line. \<not> sublist w (right_window line i w)"
  show "\<not> sublist w line"
  proof
    assume "sublist w line"
    then obtain ps ss where line: "line = ps @ w @ ss"
      by (auto simp: sublist_def)
    show False
    proof (cases "ss = []")
      case True
      then have "right_window line 0 w = w"
        by (simp add: right_window_def line)
      moreover have "0 < length line"
        using assms by (simp add: line)
      ultimately show False using none by force
    next
      case False
      let ?i = "length ss"
      have i: "0 < ?i" "?i < length line"
        using False assms by (simp_all add: line)
      have lo: "length line - (?i + length w + 1) = length ps - 1"
        by (simp add: line)
      have hi: "(length line - ?i) - (length line - (?i + length w + 1))
                  = length w + (length ps - (length ps - 1))"
        by (simp add: line)
      have "right_window line ?i w = drop (length ps - 1) ps @ w"
        using i unfolding right_window_def lo hi
        by (simp add: line)
      then have "sublist w (right_window line ?i w)"
        by simp
      with i none show False by blast
    qed
  qed
next
  assume "\<not> sublist w line"
  then show "\<forall>i<length line. \<not> sublist w (right_window line i w)"
    using right_window_sublist sublist_order.order_trans by blast
qed

lemma digit_at_no_index:
  "(\<forall>i<length line. digit_at line i = None) \<longleftrightarrow> (\<forall>c\<in>set line. \<not> is_digit c)"
proof
  assume "\<forall>i<length line. digit_at line i = None"
  then have "\<forall>i<length line. \<not> is_digit (line ! i)"
    by (auto simp: digit_at_def split: if_splits)
  then show "\<forall>c\<in>set line. \<not> is_digit c"
    by (metis in_set_conv_nth)
next
  assume "\<forall>c\<in>set line. \<not> is_digit c"
  then show "\<forall>i<length line. digit_at line i = None"
    by (simp add: digit_at_def)
qed

lemma digit_at_no_index_rev:
  "(\<forall>i<length line. digit_at line (length line - 1 - i) = None) \<longleftrightarrow> (\<forall>c\<in>set line. \<not> is_digit c)"
proof -
  have "(\<forall>i<length line. digit_at line (length line - 1 - i) = None)
          \<longleftrightarrow> (\<forall>j<length line. digit_at line j = None)"
  proof
    assume a: "\<forall>i<length line. digit_at line (length line - 1 - i) = None"
    show "\<forall>j<length line. digit_at line j = None"
    proof (intro allI impI)
      fix j assume j: "j < length line"
      then have "length line - 1 - (length line - 1 - j) = j" "length line - 1 - j < length line"
        by simp_all
      with a show "digit_at line j = None" by metis
    qed
  next
    assume a: "\<forall>j<length line. digit_at line j = None"
    show "\<forall>i<length line. digit_at line (length line - 1 - i) = None"
    proof (intro allI impI)
      fix i assume "i < length line"
      then have "length line - 1 - i < length line" by simp
      with a show "digit_at line (length line - 1 - i) = None" by blast
    qed
  qed
  then show ?thesis
    using digit_at_no_index[of line] by simp
qed

lemma word_numbers_not_Nil: "w \<in> set word_numbers \<Longrightarrow> w \<noteq> []"
  by (auto simp: word_numbers_def)

lemma has_value_sublist:
  "has_value line wc \<longleftrightarrow>
     (\<exists>c\<in>set line. is_digit c) \<or> (wc \<and> (\<exists>w\<in>set word_numbers. sublist w line))"
  by (simp add: has_value_def py_in_str_sublist)

lemma left_none_iff:
  "first_some (map (left_at line wc) [0..<length line]) = None \<longleftrightarrow> \<not> has_value line wc"
proof -
  have "first_some (map (left_at line wc) [0..<length line]) = None \<longleftrightarrow>
          (\<forall>i<length line. left_at line wc i = None)"
    by (auto simp: first_some_eq_None)
  also have "\<dots> \<longleftrightarrow> (\<forall>i<length line. digit_at line i = None) \<and>
       (wc \<longrightarrow> (\<forall>w\<in>set word_numbers. \<forall>i<length line. \<not> sublist w (left_window line i w)))"
    by (auto simp: left_at_def orelse_eq_None word_at_eq_None)
  also have "\<dots> \<longleftrightarrow> \<not> has_value line wc"
    unfolding has_value_sublist digit_at_no_index
    using sublist_left_window[OF word_numbers_not_Nil] by blast
  finally show ?thesis .
qed

lemma right_none_iff:
  "first_some (map (right_at line wc) [0..<length line]) = None \<longleftrightarrow> \<not> has_value line wc"
proof -
  have "first_some (map (right_at line wc) [0..<length line]) = None \<longleftrightarrow>
          (\<forall>i<length line. right_at line wc i = None)"
    by (auto simp: first_some_eq_None)
  also have "\<dots> \<longleftrightarrow> (\<forall>i<length line. digit_at line (length line - 1 - i) = None) \<and>
       (wc \<longrightarrow> (\<forall>w\<in>set word_numbers. \<forall>i<length line. \<not> sublist w (right_window line i w)))"
    by (auto simp: right_at_def orelse_eq_None word_at_eq_None)
  also have "\<dots> \<longleftrightarrow> \<not> has_value line wc"
    unfolding has_value_sublist digit_at_no_index_rev
    using sublist_right_window[OF word_numbers_not_Nil] by blast
  finally show ?thesis .
qed

section \<open>The values the decoder finds, and its result\<close>

lemma first_some_in_set: "first_some xs = Some v \<Longrightarrow> Some v \<in> set xs"
  by (induction xs) (auto simp: orelse_def split: option.splits)

lemma digit_at_range:
  assumes "digit_at line j = Some v"
  shows "0 \<le> v \<and> v \<le> 9 \<and> (CHR ''0'' \<notin> set line \<longrightarrow> j < length line \<longrightarrow> 1 \<le> v)"
proof -
  from assms have d: "is_digit (line ! j)" and v: "v = digit_val (line ! j)"
    by (auto simp: digit_at_def split: if_splits)
  have "1 \<le> v" if "CHR ''0'' \<notin> set line" "j < length line"
  proof -
    from that have "line ! j \<noteq> CHR ''0''" by (metis nth_mem)
    with d v show ?thesis by (simp add: digit_val_pos)
  qed
  with d v show ?thesis by (simp add: digit_val_range)
qed

lemma left_at_range:
  assumes "left_at line wc i = Some v" "i < length line"
  shows "0 \<le> v \<and> v \<le> 9 \<and> (CHR ''0'' \<notin> set line \<longrightarrow> 1 \<le> v)"
proof (cases "digit_at line i")
  case None
  with assms have "word_at left_window line i (enumerate 0 word_numbers) = Some v"
    by (simp add: left_at_def split: if_splits)
  from word_at_range[OF this] show ?thesis by simp
next
  case (Some u)
  with assms have "digit_at line i = Some v" by (simp add: left_at_def)
  from digit_at_range[OF this] assms(2) show ?thesis by simp
qed

lemma right_at_range:
  assumes "right_at line wc i = Some v" "i < length line"
  shows "0 \<le> v \<and> v \<le> 9 \<and> (CHR ''0'' \<notin> set line \<longrightarrow> 1 \<le> v)"
proof (cases "digit_at line (length line - 1 - i)")
  case None
  with assms have "word_at right_window line i (enumerate 0 word_numbers) = Some v"
    by (simp add: right_at_def split: if_splits)
  from word_at_range[OF this] show ?thesis by simp
next
  case (Some u)
  with assms have "digit_at line (length line - 1 - i) = Some v" by (simp add: right_at_def)
  moreover from assms(2) have "length line - 1 - i < length line" by simp
  ultimately show ?thesis using digit_at_range by blast
qed

lemma first_left_range:
  assumes "first_some (map (left_at line wc) [0..<length line]) = Some v"
  shows "0 \<le> v \<and> v \<le> 9 \<and> (CHR ''0'' \<notin> set line \<longrightarrow> 1 \<le> v)"
proof -
  from first_some_in_set[OF assms] obtain i where "i < length line" "left_at line wc i = Some v"
    by auto
  then show ?thesis using left_at_range by blast
qed

lemma first_right_range:
  assumes "first_some (map (right_at line wc) [0..<length line]) = Some v"
  shows "0 \<le> v \<and> v \<le> 9 \<and> (CHR ''0'' \<notin> set line \<longrightarrow> 1 \<le> v)"
proof -
  from first_some_in_set[OF assms] obtain i where "i < length line" "right_at line wc i = Some v"
    by auto
  then show ?thesis using right_at_range by blast
qed

text \<open>
  The loop of \<open>decode_line\<close> never raises, and it ends with both values set or with
  neither; in the first case both are single digits, so that \<open>int(f"{a}{b}")\<close> is
  \<open>10 * a + b\<close>.
\<close>

lemma decode_scan_cases:
  "(\<not> has_value line wc \<and> decode_scan line wc = Inr (None, None)) \<or>
   (has_value line wc \<and>
    (\<exists>a b. decode_scan line wc = Inr (Some a, Some b) \<and>
            0 \<le> a \<and> a \<le> 9 \<and> 0 \<le> b \<and> b \<le> 9 \<and>
            (CHR ''0'' \<notin> set line \<longrightarrow> 1 \<le> a \<and> 1 \<le> b)))"
proof (cases "has_value line wc")
  case False
  then show ?thesis
    by (simp add: decode_scan_eq left_none_iff right_none_iff)
next
  case True
  then obtain a b where a: "first_some (map (left_at line wc) [0..<length line]) = Some a"
    and b: "first_some (map (right_at line wc) [0..<length line]) = Some b"
    using left_none_iff[of line wc] right_none_iff[of line wc] by auto
  from first_left_range[OF a] first_right_range[OF b] a b True show ?thesis
    by (simp add: decode_scan_eq)
qed

lemma decode_line_cases:
  "(\<not> has_value line wc \<and> decode_line line wc = Inr None) \<or>
   (has_value line wc \<and>
    (\<exists>a b. decode_scan line wc = Inr (Some a, Some b) \<and>
            decode_line line wc = Inr (Some (10 * a + b)) \<and>
            0 \<le> a \<and> a \<le> 9 \<and> 0 \<le> b \<and> b \<le> 9 \<and>
            (CHR ''0'' \<notin> set line \<longrightarrow> 1 \<le> a \<and> 1 \<le> b)))"
proof -
  from decode_scan_cases[of line wc] show ?thesis
  proof (elim disjE conjE exE)
    assume "\<not> has_value line wc" "decode_scan line wc = Inr (None, None)"
    then show ?thesis by (simp add: decode_line_def)
  next
    fix a b
    assume h: "has_value line wc" "decode_scan line wc = Inr (Some a, Some b)"
      "0 \<le> a" "a \<le> 9" "0 \<le> b" "b \<le> 9" "CHR ''0'' \<notin> set line \<longrightarrow> 1 \<le> a \<and> 1 \<le> b"
    then have "decode_line line wc = Inr (Some (10 * a + b))"
      by (simp add: decode_line_def concat_num_digits)
    with h show ?thesis by blast
  qed
qed

text \<open>
  Claim C10. For every line and either setting of word correction, the forward search ends
  with a first value exactly when the backward search ends with a last value. So the loop
  ends with neither value, and \<open>decode_line\<close> returns none, or with both values, and
  \<open>decode_line\<close> returns their concatenation; the two branches that duplicate the only
  value found are never taken.
\<close>

theorem decode_line_both_or_neither:
  "\<exists>first_num last_num.
     decode_scan line word_correction = Inr (first_num, last_num) \<and>
     (first_num = None) = (last_num = None) \<and>
     ((first_num = None \<and> last_num = None \<and> decode_line line word_correction = Inr None) \<or>
      (\<exists>a b. first_num = Some a \<and> last_num = Some b \<and> concat_num a b = Inr (10 * a + b) \<and>
             decode_line line word_correction = Inr (Some (10 * a + b))))"
proof -
  from decode_line_cases[of line word_correction] show ?thesis
  proof (elim disjE conjE exE)
    assume "\<not> has_value line word_correction" "decode_line line word_correction = Inr None"
    moreover from this decode_scan_cases[of line word_correction]
    have "decode_scan line word_correction = Inr (None, None)" by blast
    ultimately show ?thesis by simp
  next
    fix a b
    assume "decode_scan line word_correction = Inr (Some a, Some b)"
      "decode_line line word_correction = Inr (Some (10 * a + b))"
      "0 \<le> a" "a \<le> 9" "0 \<le> b" "b \<le> 9"
    then show ?thesis by (simp add: concat_num_digits)
  qed
qed

text \<open>
  Claim C7. On a line that holds no ASCII digit and, when word correction is on, no
  spelled-out digit word, \<open>decode_line\<close> returns none and raises nothing; the empty line
  without word correction is one such line.
\<close>

theorem decode_line_none:
  assumes "\<forall>c\<in>set line. \<not> is_digit c"
    and "word_correction \<longrightarrow> (\<forall>w\<in>set word_numbers. \<not> py_in_str w line)"
  shows "decode_line line word_correction = Inr None"
proof -
  from assms have "\<not> has_value line word_correction"
    by (auto simp: has_value_def)
  with decode_line_cases[of line word_correction] show ?thesis by blast
qed

theorem decode_line_none_witness:
  "decode_line '''' False = Inr None \<and> decode_line ''trebuchet'' True = Inr None"
proof
  show "decode_line '''' False = Inr None"
    using decode_line_none[of "''''" False] by simp
  have "\<forall>c\<in>set ''trebuchet''. \<not> is_digit c"
    by (simp add: is_digit_def)
  moreover have "\<forall>w\<in>set word_numbers. \<not> py_in_str w ''trebuchet''"
    by (simp add: word_numbers_def)
  ultimately show "decode_line ''trebuchet'' True = Inr None"
    using decode_line_none[of "''trebuchet''" True] by blast
qed

lemma first_some_upt_0:
  "0 < n \<Longrightarrow> f 0 = Some v \<Longrightarrow> first_some (map f [0..<n]) = Some v"
  by (simp add: upt_conv_Cons)

text \<open>
  Claim C1. On a non-empty string made of ASCII digits only, \<open>decode_line\<close> without word
  correction returns ten times the value of the first digit plus the value of the last
  digit.
\<close>

theorem decode_line_digits_only:
  assumes "s \<noteq> []" and "\<forall>c\<in>set s. is_digit c"
  shows "decode_line s False = Inr (Some (10 * digit_val (hd s) + digit_val (last s)))"
proof -
  from assms have n: "0 < length s" by simp
  from assms have "is_digit (s ! 0)" "is_digit (s ! (length s - 1))"
    by simp_all
  then have "left_at s False 0 = Some (digit_val (s ! 0))"
    "right_at s False 0 = Some (digit_val (s ! (length s - 1)))"
    by (simp_all add: left_at_def right_at_def digit_at_def)
  then have "decode_scan s False =
      Inr (Some (digit_val (s ! 0)), Some (digit_val (s ! (length s - 1))))"
    using n by (simp add: decode_scan_eq first_some_upt_0)
  moreover have "s ! 0 = hd s" "s ! (length s - 1) = last s"
    using assms(1) by (simp_all add: hd_conv_nth last_conv_nth)
  moreover have "0 \<le> digit_val (hd s) \<and> digit_val (hd s) \<le> 9"
    "0 \<le> digit_val (last s) \<and> digit_val (last s) \<le> 9"
    using assms by (simp_all add: digit_val_range)
  ultimately show ?thesis
    by (simp add: decode_line_def concat_num_digits)
qed

theorem decode_line_digits_only_witness:
  "decode_line ''4711'' False = Inr (Some 41) \<and> decode_line ''7'' False = Inr (Some 77)"
  using decode_line_digits_only[of "''4711''"] decode_line_digits_only[of "''7''"]
  by (simp add: is_digit_def digit_val_def)





section \<open>The sum over a file\<close>

lemma decode_line_total:
  "decode_line line wc = Inr None \<or> (\<exists>v. decode_line line wc = Inr (Some v))"
  using decode_line_cases[of line wc] by blast

lemma sum_loop_eq:
  "sum_loop wc file_lines t =
     (if \<forall>line\<in>set file_lines. decode_line (strip line) wc \<noteq> Inr None
      then Inr (t + sum_list (map (\<lambda>line. line_value_or_zero line wc) file_lines))
      else Inl TypeError)"
proof (induction file_lines arbitrary: t)
  case Nil
  show ?case by simp
next
  case (Cons line rest)
  from decode_line_total[of "strip line" wc] show ?case
  proof (elim disjE exE)
    assume "decode_line (strip line) wc = Inr None"
    then show ?thesis by simp
  next
    fix v assume "decode_line (strip line) wc = Inr (Some v)"
    then show ?thesis
      by (simp add: Cons.IH line_value_or_zero_def)
  qed
qed

text \<open>
  Claim C5 says that a line which decodes to none adds 0 to the total of \<open>sum_lines\<close>.
  The code adds the decoded value to the total as it is, and adding \<open>None\<close> raises
  \<open>TypeError\<close>: on the two lines \<open>1abc2\<close> and \<open>xyz\<close> no total is returned, where
  the claim gives 12.
\<close>

theorem sum_lines_none_counterexample:
  "sum_lines [''1abc2'' @ [CHR 0x0A], ''xyz'' @ [CHR 0x0A]] False = Inl TypeError \<and>
   sum_lines_none_as_zero [''1abc2'' @ [CHR 0x0A], ''xyz'' @ [CHR 0x0A]] False = Inr 12"
  by code_simp

text \<open>
  Claim C5, amended. \<open>sum_lines\<close> strips each line and decodes it with \<open>decode_line\<close>.
  When every line decodes to a value it returns the sum of these values; when some line
  decodes to none, adding it raises \<open>TypeError\<close> and no total is returned.
\<close>

theorem sum_lines_total_or_error:
  "sum_lines file_lines word_correction =
     (if \<forall>line\<in>set file_lines. decode_line (strip line) word_correction \<noteq> Inr None
      then Inr (sum_list (map (\<lambda>line. line_value_or_zero line word_correction) file_lines))
      else Inl TypeError)"
  by (simp add: sum_lines_def sum_loop_eq)

theorem sum_lines_total_or_error_witness:
  "sum_lines [''1abc2'' @ [CHR 0x0A], ''pqr3stu8vwx'' @ [CHR 0x0A], ''treb7uchet''] False = Inr 127"
proof -
  have "decode_line (strip (''1abc2'' @ [CHR 0x0A])) False = Inr (Some 12)"
    "decode_line (strip (''pqr3stu8vwx'' @ [CHR 0x0A])) False = Inr (Some 38)"
    "decode_line (strip ''treb7uchet'') False = Inr (Some 77)"
    by code_simp+
  then show ?thesis
    using sum_lines_total_or_error
      [of "[''1abc2'' @ [CHR 0x0A], ''pqr3stu8vwx'' @ [CHR 0x0A], ''treb7uchet'']" False]
    by (simp add: line_value_or_zero_def)
qed

section \<open>Day 2: the largest dice group\<close>











section \<open>Day 2: reading a game line\<close>















lemma colour_count_Nil [simp]: "colour_count a colour [] = a"
  by (simp add: colour_count_def)









end
